theory Spec2Isabelle
  imports Main "HOL-Library.Sublist"
begin

section \<open>GitHub Actions version updater: the scanner and the update reconciliation\<close>

text \<open>
  A shallow embedding of \<^verbatim>\<open>src/main.py\<close> (class \<^verbatim>\<open>GitHubActionsVersionUpdater\<close>).
  Python values that come out of \<^verbatim>\<open>yaml.load\<close> and \<^verbatim>\<open>response.json()\<close> are a tagged
  datatype, exceptions are values, the mutable locals of \<^verbatim>\<open>run\<close> together with the
  observable effects (files, remote lookups, diagnostics) are one record that is passed
  along, and the \<^verbatim>\<open>for\<close> loops are recursive functions over lists.

  What the program only calls (the YAML loader, the two HTTP endpoints, the iteration
  order of a Python \<^verbatim>\<open>set\<close>, the git status check) is a parameter, collected in the
  record \<open>externals\<close>.
\<close>

subsection \<open>Python values and exceptions\<close>

text \<open>
  A mapping is an association list in document order. Python mappings have unique keys;
  none of the functions below depends on that. Floating point scalars are left out: the
  program treats them like the other non-string scalars.
\<close>

datatype pyval =
    PStr string
  | PInt int
  | PBool bool
  | PNone
  | PDict "(pyval \<times> pyval) list"
  | PList "pyval list"

datatype exn =
    ValueError
  | AttributeError
  | TypeError
  | KeyError
  | JSONDecodeError
  | YAMLError
  | OSError
  | RequestException

text \<open>How a call ends: it returns, it raises \<^verbatim>\<open>SystemExit(code)\<close>, or it raises another exception.\<close>

datatype 'a result = Return 'a | SystemExit int | Raise exn

fun is_container :: "pyval \<Rightarrow> bool" where
  "is_container (PDict _) = True"
| "is_container (PList _) = True"
| "is_container _ = False"

text \<open>\<^verbatim>\<open>obj[key]\<close> for a string key.\<close>

fun py_getitem :: "pyval \<Rightarrow> string \<Rightarrow> exn + pyval" where
  "py_getitem (PDict items) key =
     (case map_of items (PStr key) of None \<Rightarrow> Inl KeyError | Some v \<Rightarrow> Inr v)"
| "py_getitem _ key = Inl TypeError"

text \<open>\<^verbatim>\<open>iter(obj)\<close>: a list gives its elements, a mapping its keys, a string its characters.\<close>

fun py_iter :: "pyval \<Rightarrow> exn + pyval list" where
  "py_iter (PList elements) = Inr elements"
| "py_iter (PDict items) = Inr (map fst items)"
| "py_iter (PStr s) = Inr (map (\<lambda>c. PStr [c]) s)"
| "py_iter _ = Inl TypeError"

subsection \<open>The string methods the program calls\<close>

text \<open>\<^verbatim>\<open>s.split(sep)\<close> for a separator of one character, as in \<^verbatim>\<open>action.split("@")\<close>.\<close>

fun str_split :: "char \<Rightarrow> string \<Rightarrow> string list" where
  "str_split sep [] = [[]]"
| "str_split sep (c # cs) =
     (if c = sep then [] # str_split sep cs
      else (case str_split sep cs of p # ps \<Rightarrow> (c # p) # ps | [] \<Rightarrow> [[c]]))"

text \<open>
  \<^verbatim>\<open>s.replace(old, new)\<close>: the occurrences of \<open>old\<close> are found from the left and do not
  overlap. An empty \<open>old\<close> matches between all characters.
\<close>

function str_replace :: "string \<Rightarrow> string \<Rightarrow> string \<Rightarrow> string" where
  "str_replace s old new =
     (if old = [] then new @ concat (map (\<lambda>c. c # new) s)
      else if s = [] then []
      else if prefix old s then new @ str_replace (drop (length old) s) old new
      else hd s # str_replace (tl s) old new)"
  by pat_completeness auto
termination
  by (relation "measure (\<lambda>(s, old, new). length s)") auto

subsection \<open>Reference extractor\<close>

text \<open>
  \<^verbatim>\<open>get_all_actions\<close> (main.py, lines 203 to 214). The generator is the list of what it
  yields, in order. The two loops are the two helper functions.
\<close>

fun get_all_actions :: "pyval \<Rightarrow> pyval list"
  and get_all_actions_items :: "(pyval \<times> pyval) list \<Rightarrow> pyval list"
  and get_all_actions_elements :: "pyval list \<Rightarrow> pyval list" where
  "get_all_actions (PDict items) = get_all_actions_items items"
| "get_all_actions (PList elements) = get_all_actions_elements elements"
| "get_all_actions (PStr _) = []"
| "get_all_actions (PInt _) = []"
| "get_all_actions (PBool _) = []"
| "get_all_actions PNone = []"
| "get_all_actions_items [] = []"
| "get_all_actions_items ((key, val) # items) =
     (if key = PStr ''uses'' then [val]
      else if is_container val then get_all_actions val
      else []) @ get_all_actions_items items"
| "get_all_actions_elements [] = []"
| "get_all_actions_elements (element # elements) =
     get_all_actions element @ get_all_actions_elements elements"

subsection \<open>State, configuration and external collaborators\<close>

record 'a response =
  status_code :: int
  json :: 'a

record release =
  published_at :: string
  html_url :: string
  tag_name :: string
  body :: string

text \<open>
  Diagnostics (\<^verbatim>\<open>gha_utils\<close>), the write of a workflow file (lines 109 to 111) and the
  calls to the git and pull request helpers, in order.
\<close>

datatype event =
    NoWorkflowWarning
  | IgnoreEcho "string list"
  | WrongFormatWarning string
  | NoReleaseWarning string int
  | FoundNewVersion string
  | Updating string string
  | NoUpdates string
  | Skipping pyval
  | FileWrite pyval string
  | ListingError int
  | JobSummary "string set"
  | CreateBranch
  | CommitChanges
  | CreatePullRequest "string set"
  | GitDiffSummary
  | PullRequestSkippedError
  | UpToDateNotice

text \<open>
  The locals of \<^verbatim>\<open>run\<close> that the loops mutate, the files, and two traces: the repository
  identifiers for which the release endpoint was requested, and the events.
\<close>

record state =
  files :: "pyval \<rightharpoonup> string"
  pull_request_body_lines :: "string set"
  workflow_updated :: bool
  updated_workflow_data :: string
  lookups :: "string list"
  log :: "event list"

record config =
  ignore_actions :: "string list"
  skip_pull_request :: bool

text \<open>
  \<open>workflows_api\<close> is the answer of the workflow listing request, \<open>releases_api\<close> the
  answer of the latest release request for a repository identifier (the recognised
  fields as strings, after the annotation \<^verbatim>\<open>dict[str, str]\<close>), \<open>yaml_load\<close> the YAML
  loader, \<open>set_order\<close> the order in which a Python set built from the given elements is
  iterated, \<open>git_has_changes\<close> the status check on the working tree.
\<close>

record externals =
  workflows_api :: "exn + (pyval option) response"
  releases_api :: "string \<Rightarrow> exn + (string \<rightharpoonup> string) response"
  yaml_load :: "string \<Rightarrow> exn + pyval"
  set_order :: "pyval list \<Rightarrow> pyval list"
  git_has_changes :: "(pyval \<rightharpoonup> string) \<Rightarrow> bool"

definition emit :: "event \<Rightarrow> state \<Rightarrow> state" where
  "emit e st = st\<lparr>log := log st @ [e]\<rparr>"

subsection \<open>Release resolver and change note\<close>

definition generate_pull_request_body_line :: "string \<Rightarrow> release \<Rightarrow> string" where
  "generate_pull_request_body_line action_repository latest_release =
     ''* **['' @ action_repository @ '']('' @ (''https://github.com/'' @ action_repository)
       @ '')** '' @ ''published a new release ''
       @ ''['' @ tag_name latest_release @ '']('' @ html_url latest_release @ '') ''
       @ ''on '' @ published_at latest_release @ [CHR 0x0A]"

text \<open>
  \<^verbatim>\<open>get_latest_release\<close> (lines 159 to 184). The empty dictionary it returns for a
  status other than 200 is \<open>None\<close>; a missing field raises \<^verbatim>\<open>KeyError\<close>.
\<close>

definition get_latest_release ::
  "externals \<Rightarrow> string \<Rightarrow> state \<Rightarrow> (exn + release option) \<times> state" where
  "get_latest_release ext action_repository st =
     (let st1 = st\<lparr>lookups := lookups st @ [action_repository]\<rparr> in
      case releases_api ext action_repository of
        Inl e \<Rightarrow> (Inl e, st1)
      | Inr response \<Rightarrow>
          if status_code response = 200 then
            (case (json response ''published_at'', json response ''html_url'',
                   json response ''tag_name'', json response ''body'') of
               (Some p, Some h, Some t, Some b) \<Rightarrow>
                 (Inr (Some \<lparr>published_at = p, html_url = h, tag_name = t, body = b\<rparr>), st1)
             | _ \<Rightarrow> (Inl KeyError, st1))
          else
            (Inr None, emit (NoReleaseWarning action_repository (status_code response)) st1))"

subsection \<open>Reconciler\<close>

text \<open>
  The body of \<^verbatim>\<open>for action in all_action_set\<close> (lines 68 to 106). A value that is not a
  string has no \<^verbatim>\<open>split\<close>: \<^verbatim>\<open>AttributeError\<close>, which the handler of \<^verbatim>\<open>ValueError\<close> does not
  catch. The unpacking into two names raises \<^verbatim>\<open>ValueError\<close> unless the split has exactly
  two parts.
\<close>

definition process_action :: "externals \<Rightarrow> state \<Rightarrow> pyval \<Rightarrow> state \<times> exn option" where
  "process_action ext st action =
     (case action of
        PStr a \<Rightarrow>
          (case str_split CHR ''@'' a of
             [action_repository, version] \<Rightarrow>
               (case get_latest_release ext action_repository st of
                  (Inl e, st1) \<Rightarrow> (st1, Some e)
                | (Inr None, st1) \<Rightarrow> (st1, None)
                | (Inr (Some latest_release), st1) \<Rightarrow>
                    (let updated_action = action_repository @ ''@'' @ tag_name latest_release in
                     if a \<noteq> updated_action then
                       (let st2 = emit (FoundNewVersion action_repository) st1;
                            st3 = st2\<lparr>pull_request_body_lines :=
                                    insert (generate_pull_request_body_line
                                              action_repository latest_release)
                                      (pull_request_body_lines st2)\<rparr>;
                            st4 = emit (Updating a updated_action) st3
                        in (st4\<lparr>updated_workflow_data :=
                                   str_replace (updated_workflow_data st4) a updated_action,
                                 workflow_updated := True\<rparr>, None))
                     else (emit (NoUpdates action_repository) st1, None)))
           | _ \<Rightarrow> (emit (WrongFormatWarning a) st, None))
      | _ \<Rightarrow> (st, Some AttributeError))"

fun process_actions :: "externals \<Rightarrow> state \<Rightarrow> pyval list \<Rightarrow> state \<times> exn option" where
  "process_actions ext st [] = (st, None)"
| "process_actions ext st (action # actions) =
     (case process_action ext st action of
        (st', None) \<Rightarrow> process_actions ext st' actions
      | (st', Some e) \<Rightarrow> (st', Some e))"

text \<open>
  Lines 64 to 66: \<^verbatim>\<open>set(...)\<close> hashes every extracted value and raises \<^verbatim>\<open>TypeError\<close> on a
  mapping or a sequence; \<^verbatim>\<open>difference_update\<close> removes the elements equal to an entry of
  the ignore set. The result is the set in its iteration order.
\<close>

definition all_action_set :: "externals \<Rightarrow> string list \<Rightarrow> pyval \<Rightarrow> exn + pyval list" where
  "all_action_set ext ignore data =
     (if list_ex is_container (get_all_actions data) then Inl TypeError
      else Inr (set_order ext
                  (filter (\<lambda>a. a \<notin> set (map PStr ignore)) (get_all_actions data))))"

text \<open>
  The body of \<^verbatim>\<open>for workflow_path in workflow_paths\<close> (lines 54 to 113). Every exception
  raised inside ends in the handler of line 112, before the file is written.
\<close>

definition process_workflow :: "externals \<Rightarrow> config \<Rightarrow> state \<Rightarrow> pyval \<Rightarrow> state" where
  "process_workflow ext cfg st workflow_path =
     (let st0 = st\<lparr>workflow_updated := False\<rparr> in
      case files st0 workflow_path of
        None \<Rightarrow> emit (Skipping workflow_path) st0
      | Some file_data \<Rightarrow>
          (let st1 = st0\<lparr>updated_workflow_data := file_data\<rparr> in
           case yaml_load ext file_data of
             Inl e \<Rightarrow> emit (Skipping workflow_path) st1
           | Inr data \<Rightarrow>
               (case all_action_set ext (ignore_actions cfg) data of
                  Inl e \<Rightarrow> emit (Skipping workflow_path) st1
                | Inr actions \<Rightarrow>
                    (case process_actions ext st1 actions of
                       (st2, Some e) \<Rightarrow> emit (Skipping workflow_path) st2
                     | (st2, None) \<Rightarrow>
                         if workflow_updated st2
                         then emit (FileWrite workflow_path (updated_workflow_data st2))
                                (st2\<lparr>files :=
                                       (files st2)(workflow_path \<mapsto> updated_workflow_data st2)\<rparr>)
                         else st2))))"


subsection \<open>Workflow listing and the orchestrator\<close>

text \<open>The list comprehension of line 195.\<close>

fun workflow_path_list :: "pyval list \<Rightarrow> exn + pyval list" where
  "workflow_path_list [] = Inr []"
| "workflow_path_list (workflow # workflows) =
     (case py_getitem workflow ''path'' of
        Inl e \<Rightarrow> Inl e
      | Inr p \<Rightarrow> (case workflow_path_list workflows of Inl e \<Rightarrow> Inl e | Inr ps \<Rightarrow> Inr (p # ps)))"

text \<open>\<^verbatim>\<open>get_workflow_paths\<close> (lines 186 to 201).\<close>

definition get_workflow_paths :: "externals \<Rightarrow> state \<Rightarrow> pyval list result \<times> state" where
  "get_workflow_paths ext st =
     (case workflows_api ext of
        Inl e \<Rightarrow> (Raise e, st)
      | Inr response \<Rightarrow>
          if status_code response = 200 then
            (case json response of
               None \<Rightarrow> (Raise JSONDecodeError, st)
             | Some data \<Rightarrow>
                 (case py_getitem data ''workflows'' of
                    Inl e \<Rightarrow> (Raise e, st)
                  | Inr workflows \<Rightarrow>
                      (case py_iter workflows of
                         Inl e \<Rightarrow> (Raise e, st)
                       | Inr ws \<Rightarrow>
                           (case workflow_path_list ws of
                              Inl e \<Rightarrow> (Raise e, st)
                            | Inr paths \<Rightarrow> (Return paths, st)))))
          else (SystemExit 1, emit (ListingError (status_code response)) st))"


text \<open>The state in which \<^verbatim>\<open>run\<close> starts: the files of the checkout, nothing requested or logged.\<close>

definition initial_state :: "(pyval \<rightharpoonup> string) \<Rightarrow> state" where
  "initial_state fs =
     \<lparr>files = fs, pull_request_body_lines = {}, workflow_updated = False,
      updated_workflow_data = [], lookups = [], log = []\<rparr>"

subsection \<open>What the specification says the extractor finds\<close>

text \<open>
  \<open>stored_under_uses d v\<close>: the value \<open>v\<close> is stored under a key \<^verbatim>\<open>uses\<close> somewhere in \<open>d\<close>,
  at any nesting depth, looking into every mapping value and every sequence element.
\<close>

inductive stored_under_uses :: "pyval \<Rightarrow> pyval \<Rightarrow> bool" where
  stored_here: "(PStr ''uses'', v) \<in> set items \<Longrightarrow> stored_under_uses (PDict items) v"
| stored_in_value: "(k, d) \<in> set items \<Longrightarrow> stored_under_uses d v
     \<Longrightarrow> stored_under_uses (PDict items) v"
| stored_in_element: "d \<in> set elements \<Longrightarrow> stored_under_uses d v
     \<Longrightarrow> stored_under_uses (PList elements) v"

text \<open>
  \<open>found_under_uses d v\<close>: the same, except that the value of a \<^verbatim>\<open>uses\<close> entry is not
  searched any further.
\<close>

inductive found_under_uses :: "pyval \<Rightarrow> pyval \<Rightarrow> bool" where
  found_here: "(PStr ''uses'', v) \<in> set items \<Longrightarrow> found_under_uses (PDict items) v"
| found_in_value: "(k, d) \<in> set items \<Longrightarrow> k \<noteq> PStr ''uses'' \<Longrightarrow> found_under_uses d v
     \<Longrightarrow> found_under_uses (PDict items) v"
| found_in_element: "d \<in> set elements \<Longrightarrow> found_under_uses d v
     \<Longrightarrow> found_under_uses (PList elements) v"

code_pred stored_under_uses .

code_pred found_under_uses .

subsection \<open>Notions the properties are stated with\<close>

text \<open>
  The answer of the release resolver for a repository identifier. It does not depend on
  the state.
\<close>

definition resolved :: "externals \<Rightarrow> string \<Rightarrow> exn + release option" where
  "resolved ext action_repository =
     fst (get_latest_release ext action_repository (initial_state Map.empty))"

text \<open>
  \<open>upgrade_of ext action\<close> is the repository identifier and the release when \<open>action\<close>
  is a string with exactly one \<^verbatim>\<open>@\<close>, a release is resolved for the part before it, and
  the tag of the release differs from the part after it.
\<close>

definition upgrade_of :: "externals \<Rightarrow> pyval \<Rightarrow> (string \<times> release) option" where
  "upgrade_of ext action =
     (case action of
        PStr a \<Rightarrow>
          (case str_split CHR ''@'' a of
             [r, v] \<Rightarrow>
               (case resolved ext r of
                  Inr (Some rel) \<Rightarrow> if tag_name rel \<noteq> v then Some (r, rel) else None
                | _ \<Rightarrow> None)
           | _ \<Rightarrow> None)
      | _ \<Rightarrow> None)"

text \<open>The outdated references among the given ones, as needed for the change notes.\<close>

definition upgrades :: "externals \<Rightarrow> pyval list \<Rightarrow> (string \<times> release) list" where
  "upgrades ext actions = List.map_filter (upgrade_of ext) actions"



definition change_note :: "string \<times> release \<Rightarrow> string" where
  "change_note u = generate_pull_request_body_line (fst u) (snd u)"

text \<open>The events of the loop over the references.\<close>

fun is_reference_event :: "event \<Rightarrow> bool" where
  "is_reference_event (WrongFormatWarning _) = True"
| "is_reference_event (NoReleaseWarning _ _) = True"
| "is_reference_event (FoundNewVersion _) = True"
| "is_reference_event (Updating _ _) = True"
| "is_reference_event (NoUpdates _) = True"
| "is_reference_event _ = False"


text \<open>
  What is assumed of the iteration order of a Python set: every element once. (Python
  identifies equal elements with \<^verbatim>\<open>==\<close>, which on strings is equality of the texts; a
  set that holds a value that is not a string makes the loop raise in any case.)
\<close>

definition set_iteration :: "(pyval list \<Rightarrow> pyval list) \<Rightarrow> bool" where
  "set_iteration order \<longleftrightarrow> (\<forall>xs. distinct (order xs) \<and> set (order xs) = set xs)"



text \<open>
  The shape of a listing answer: a mapping with a list under \<^verbatim>\<open>workflows\<close> whose entries
  are mappings with a \<^verbatim>\<open>path\<close> field; and the paths of such an answer.
\<close>

fun has_path :: "pyval \<Rightarrow> bool" where
  "has_path (PDict items) = (map_of items (PStr ''path'') \<noteq> None)"
| "has_path _ = False"

fun path_of :: "pyval \<Rightarrow> pyval" where
  "path_of (PDict items) = (case map_of items (PStr ''path'') of Some p \<Rightarrow> p | None \<Rightarrow> PNone)"
| "path_of _ = PNone"

fun workflows_of :: "pyval option \<Rightarrow> pyval option" where
  "workflows_of (Some (PDict items)) = map_of items (PStr ''workflows'')"
| "workflows_of _ = None"

definition listing_shape :: "pyval option \<Rightarrow> bool" where
  "listing_shape data =
     (case workflows_of data of Some (PList ws) \<Rightarrow> list_all has_path ws | _ \<Rightarrow> False)"

text \<open>
  The values under \<^verbatim>\<open>workflows\<close> that are not lists and make the comprehension of line
  195 run over nothing: the empty mapping and the empty string. \<open>string_keys\<close> says that
  the keys of a mapping under \<^verbatim>\<open>workflows\<close> are strings, as the keys of a JSON object are.
\<close>

fun empty_workflows :: "pyval option \<Rightarrow> bool" where
  "empty_workflows data = (workflows_of data = Some (PDict []) \<or> workflows_of data = Some (PStr []))"

fun is_string :: "pyval \<Rightarrow> bool" where
  "is_string (PStr _) = True"
| "is_string _ = False"

fun string_keys :: "pyval option \<Rightarrow> bool" where
  "string_keys data =
     (case workflows_of data of Some (PDict items) \<Rightarrow> list_all is_string (map fst items) | _ \<Rightarrow> True)"

definition listed_paths :: "pyval option \<Rightarrow> pyval list" where
  "listed_paths data =
     (case workflows_of data of Some (PList ws) \<Rightarrow> map path_of ws | _ \<Rightarrow> [])"

subsection \<open>Collaborators for the concrete runs\<close>

text \<open>
  Concrete collaborators: a release endpoint that knows the latest tag of the listed
  repositories and answers 404 for the others, a loader that knows the parse of the
  listed texts, and a given iteration order.
\<close>

definition example_release :: "string \<Rightarrow> string \<Rightarrow> (string \<rightharpoonup> string) response" where
  "example_release repository tag =
     \<lparr>status_code = 200,
      json = [''published_at'' \<mapsto> ''2024-01-01T00:00:00Z'',
              ''html_url'' \<mapsto> ''https://github.com/'' @ repository @ ''/releases/tag/'' @ tag,
              ''tag_name'' \<mapsto> tag,
              ''body'' \<mapsto> []]\<rparr>"

definition example_externals ::
  "(string \<times> string) list \<Rightarrow> (string \<times> pyval) list \<Rightarrow> (pyval list \<Rightarrow> pyval list) \<Rightarrow> externals" where
  "example_externals latest documents order =
     \<lparr>workflows_api =
        Inr \<lparr>status_code = 200,
             json = Some (PDict [(PStr ''workflows'',
                                  PList [PDict [(PStr ''path'', PStr ''ci.yml'')]])])\<rparr>,
      releases_api = (\<lambda>r. case map_of latest r of
                            Some tag \<Rightarrow> Inr (example_release r tag)
                          | None \<Rightarrow> Inr \<lparr>status_code = 404, json = Map.empty\<rparr>),
      yaml_load = (\<lambda>t. case map_of documents t of Some d \<Rightarrow> Inr d | None \<Rightarrow> Inl YAMLError),
      set_order = order,
      git_has_changes = (\<lambda>fs. False)\<rparr>"

section \<open>The string methods\<close>

declare str_replace.simps [simp del]

lemma str_split_not_Nil: "str_split c s \<noteq> []"
  by (induction s) (auto split: list.splits)

lemma length_str_split: "length (str_split c s) = Suc (count_list s c)"
  by (induction s) (auto split: list.splits simp: str_split_not_Nil)

lemma str_split_no_sep: "c \<notin> set s \<Longrightarrow> str_split c s = [s]"
  by (induction s) auto

lemma str_split_append: "c \<notin> set a \<Longrightarrow> str_split c (a @ c # b) = a # str_split c b"
  by (induction a) auto

lemma str_split_two:
  "c \<notin> set a \<Longrightarrow> c \<notin> set b \<Longrightarrow> str_split c (a @ c # b) = [a, b]"
  by (simp add: str_split_append str_split_no_sep)

lemma str_split_hd: "hd (str_split c s) = takeWhile (\<lambda>x. x \<noteq> c) s"
  by (induction s) (auto split: list.splits simp: str_split_not_Nil)

lemma str_split_two_iff:
  "str_split c s = [a, b] \<longleftrightarrow> s = a @ c # b \<and> c \<notin> set a \<and> c \<notin> set b"
proof
  assume "str_split c s = [a, b]"
  then show "s = a @ c # b \<and> c \<notin> set a \<and> c \<notin> set b"
  proof (induction s arbitrary: a)
    case Nil
    then show ?case by simp
  next
    case (Cons x xs)
    show ?case
    proof (cases "x = c")
      case True
      with Cons.prems have a: "a = []" and b: "str_split c xs = [b]" by auto
      from b have "count_list xs c = 0"
        using length_str_split [of c xs] by simp
      then have notin: "c \<notin> set xs" by (simp add: count_list_0_iff)
      with b have "b = xs" by (simp add: str_split_no_sep)
      with a notin True show ?thesis by simp
    next
      case False
      with Cons.prems obtain p where p: "str_split c xs = [p, b]" "a = x # p"
        by (auto split: list.splits)
      from Cons.IH [OF p(1)] p(2) False show ?thesis by simp
    qed
  qed
next
  assume "s = a @ c # b \<and> c \<notin> set a \<and> c \<notin> set b"
  then show "str_split c s = [a, b]" by (simp add: str_split_two)
qed







section \<open>The reference extractor\<close>

inductive_simps found_PDict: "found_under_uses (PDict items) v"

inductive_simps found_PList: "found_under_uses (PList elements) v"

inductive_simps found_PStr: "found_under_uses (PStr s) v"

inductive_simps found_PInt: "found_under_uses (PInt i) v"

inductive_simps found_PBool: "found_under_uses (PBool b) v"

inductive_simps found_PNone: "found_under_uses PNone v"

inductive_simps stored_PDict: "stored_under_uses (PDict items) v"

inductive_simps stored_PList: "stored_under_uses (PList elements) v"

inductive_simps stored_PStr: "stored_under_uses (PStr s) v"

inductive_simps stored_PInt: "stored_under_uses (PInt i) v"

inductive_simps stored_PBool: "stored_under_uses (PBool b) v"

inductive_simps stored_PNone: "stored_under_uses PNone v"

lemmas found_simps = found_PDict found_PList found_PStr found_PInt found_PBool found_PNone

lemmas stored_simps =
  stored_PDict stored_PList stored_PStr stored_PInt stored_PBool stored_PNone

lemma found_container: "found_under_uses d v \<Longrightarrow> is_container d"
  by (induction rule: found_under_uses.induct) auto

lemma found_imp_stored: "found_under_uses d v \<Longrightarrow> stored_under_uses d v"
  by (induction rule: found_under_uses.induct) (auto intro: stored_under_uses.intros)

lemma get_all_actions_found:
  "(v \<in> set (get_all_actions d)) = found_under_uses d v"
  "(v \<in> set (get_all_actions_items items)) = found_under_uses (PDict items) v"
  "(v \<in> set (get_all_actions_elements elements)) = found_under_uses (PList elements) v"
proof (induction d and items and elements
    rule: get_all_actions_get_all_actions_items_get_all_actions_elements.induct)
  case (8 key val items)
  then show ?case
    using found_container [of val v] by (auto simp: found_simps)
next
  case (10 element elements)
  then show ?case
    by (auto simp: found_simps)
qed (auto simp: found_simps)

text \<open>
  C6, as stated, at a concrete document. In \<^verbatim>\<open>{"uses": {"uses": "a/b@v1"}}\<close> the string
  is stored under a \<^verbatim>\<open>uses\<close> key at depth two, and the extractor does not yield it: it
  yields the inner mapping and does not look into it (the \<^verbatim>\<open>elif\<close> of line 209).
\<close>

theorem nested_uses_value_not_yielded:
  "stored_under_uses (PDict [(PStr ''uses'', PDict [(PStr ''uses'', PStr ''a/b@v1'')])])
     (PStr ''a/b@v1'')
   \<and> PStr ''a/b@v1''
       \<notin> set (get_all_actions (PDict [(PStr ''uses'', PDict [(PStr ''uses'', PStr ''a/b@v1'')])]))"
  by (simp add: stored_simps)

text \<open>
  C6, amended. A document with no \<^verbatim>\<open>uses\<close> key at any nesting depth yields the empty
  sequence. For every document the extractor yields exactly the values stored under a
  \<^verbatim>\<open>uses\<close> key that is reached through sequence elements and through mapping values
  whose own key is not \<^verbatim>\<open>uses\<close>, at any depth and in any combination.
\<close>

theorem get_all_actions_yields_found:
  "((\<forall>v. \<not> stored_under_uses d v) \<longrightarrow> get_all_actions d = [])
   \<and> (\<forall>v. v \<in> set (get_all_actions d) \<longleftrightarrow> found_under_uses d v)"
proof (intro conjI impI allI)
  assume none: "\<forall>v. \<not> stored_under_uses d v"
  have "\<And>v. v \<notin> set (get_all_actions d)"
    using none found_imp_stored get_all_actions_found(1) by blast
  then show "get_all_actions d = []"
    by (cases "get_all_actions d") auto
next
  fix v
  show "v \<in> set (get_all_actions d) \<longleftrightarrow> found_under_uses d v"
    by (rule get_all_actions_found(1))
qed

theorem get_all_actions_yields_found_witness:
  "(\<forall>v. \<not> stored_under_uses (PList [PInt 1, PDict [(PStr ''name'', PStr ''build'')]]) v)
   \<and> get_all_actions (PList [PInt 1, PDict [(PStr ''name'', PStr ''build'')]]) = []
   \<and> found_under_uses
        (PList [PDict [(PStr ''jobs'', PList [PDict [(PStr ''uses'', PStr ''a/b@v1'')]])]])
        (PStr ''a/b@v1'')"
proof -
  have h: "\<forall>v. \<not> stored_under_uses (PList [PInt 1, PDict [(PStr ''name'', PStr ''build'')]]) v"
    by (auto simp: stored_simps)
  show ?thesis
    using h
      get_all_actions_yields_found [of "PList [PInt 1, PDict [(PStr ''name'', PStr ''build'')]]"]
      get_all_actions_yields_found
        [of "PList [PDict [(PStr ''jobs'', PList [PDict [(PStr ''uses'', PStr ''a/b@v1'')]])]]"]
    by auto
qed

section \<open>The reconciler\<close>

lemma process_action_malformed:
  assumes "count_list a CHR ''@'' \<noteq> 1"
  shows "process_action ext st (PStr a) = (emit (WrongFormatWarning a) st, None)"
proof -
  have "length (str_split CHR ''@'' a) \<noteq> 2"
    using assms by (simp add: length_str_split)
  then show ?thesis
    by (auto simp: process_action_def split: list.splits)
qed


lemma fst_get_latest_release: "fst (get_latest_release ext r st) = resolved ext r"
  by (simp add: resolved_def get_latest_release_def Let_def split: sum.splits option.splits)

lemma get_latest_release_Some:
  "resolved ext r = Inr (Some rel) \<Longrightarrow>
   get_latest_release ext r st = (Inr (Some rel), st\<lparr>lookups := lookups st @ [r]\<rparr>)"
  by (auto simp: resolved_def get_latest_release_def Let_def split: sum.splits option.splits if_splits)

lemma get_latest_release_Inl:
  "resolved ext r = Inl e \<Longrightarrow>
   get_latest_release ext r st = (Inl e, st\<lparr>lookups := lookups st @ [r]\<rparr>)"
  by (auto simp: resolved_def get_latest_release_def Let_def split: sum.splits option.splits if_splits)

lemma get_latest_release_None:
  "resolved ext r = Inr None \<Longrightarrow>
   \<exists>code. get_latest_release ext r st
     = (Inr None, emit (NoReleaseWarning r code) (st\<lparr>lookups := lookups st @ [r]\<rparr>))"
  by (auto simp: resolved_def get_latest_release_def Let_def split: sum.splits option.splits if_splits)

lemma process_action_not_string:
  "\<forall>s. action \<noteq> PStr s \<Longrightarrow> process_action ext st action = (st, Some AttributeError)"
  by (cases action) (auto simp: process_action_def)

lemma process_action_raise:
  assumes "str_split CHR ''@'' a = [r, v]" and "resolved ext r = Inl e"
  shows "process_action ext st (PStr a) = (st\<lparr>lookups := lookups st @ [r]\<rparr>, Some e)"
  using assms by (simp add: process_action_def get_latest_release_Inl)

lemma process_action_no_release:
  assumes "str_split CHR ''@'' a = [r, v]" and "resolved ext r = Inr None"
  shows "\<exists>code. process_action ext st (PStr a)
    = (emit (NoReleaseWarning r code) (st\<lparr>lookups := lookups st @ [r]\<rparr>), None)"
  using assms get_latest_release_None [of ext r st] by (auto simp: process_action_def)

lemma process_action_up_to_date:
  assumes "str_split CHR ''@'' a = [r, v]" and "resolved ext r = Inr (Some rel)"
    and "tag_name rel = v"
  shows "process_action ext st (PStr a)
    = (emit (NoUpdates r) (st\<lparr>lookups := lookups st @ [r]\<rparr>), None)"
proof -
  from assms(1) have "a = r @ CHR ''@'' # v" by (simp add: str_split_two_iff)
  with assms show ?thesis
    by (simp add: process_action_def get_latest_release_Some)
qed

lemma process_action_upgrade:
  assumes "str_split CHR ''@'' a = [r, v]" and "resolved ext r = Inr (Some rel)"
    and "tag_name rel \<noteq> v"
  shows "process_action ext st (PStr a)
    = (st\<lparr>lookups := lookups st @ [r],
           log := log st @ [FoundNewVersion r, Updating a (r @ ''@'' @ tag_name rel)],
           pull_request_body_lines :=
             insert (generate_pull_request_body_line r rel) (pull_request_body_lines st),
           updated_workflow_data :=
             str_replace (updated_workflow_data st) a (r @ ''@'' @ tag_name rel),
           workflow_updated := True\<rparr>, None)"
proof -
  from assms(1) have "a = r @ CHR ''@'' # v" by (simp add: str_split_two_iff)
  with assms show ?thesis
    by (simp add: process_action_def get_latest_release_Some Let_def emit_def)
qed



lemma process_action_cases:
  obtains
    (not_string) "\<forall>s. action \<noteq> PStr s"
      "process_action ext st action = (st, Some AttributeError)"
      "upgrade_of ext action = None"
  | (malformed) a where "action = PStr a" "count_list a CHR ''@'' \<noteq> 1"
      "process_action ext st action = (emit (WrongFormatWarning a) st, None)"
      "upgrade_of ext action = None"
  | (raise) a r v e where "action = PStr a" "str_split CHR ''@'' a = [r, v]"
      "resolved ext r = Inl e"
      "process_action ext st action = (st\<lparr>lookups := lookups st @ [r]\<rparr>, Some e)"
      "upgrade_of ext action = None"
  | (no_release) a r v code where "action = PStr a" "str_split CHR ''@'' a = [r, v]"
      "resolved ext r = Inr None"
      "process_action ext st action
        = (emit (NoReleaseWarning r code) (st\<lparr>lookups := lookups st @ [r]\<rparr>), None)"
      "upgrade_of ext action = None"
  | (up_to_date) a r v rel where "action = PStr a" "str_split CHR ''@'' a = [r, v]"
      "resolved ext r = Inr (Some rel)" "tag_name rel = v"
      "process_action ext st action
        = (emit (NoUpdates r) (st\<lparr>lookups := lookups st @ [r]\<rparr>), None)"
      "upgrade_of ext action = None"
  | (upgrade) a r v rel where "action = PStr a" "str_split CHR ''@'' a = [r, v]"
      "resolved ext r = Inr (Some rel)" "tag_name rel \<noteq> v"
      "process_action ext st action
        = (st\<lparr>lookups := lookups st @ [r],
               log := log st @ [FoundNewVersion r, Updating a (r @ ''@'' @ tag_name rel)],
               pull_request_body_lines :=
                 insert (generate_pull_request_body_line r rel) (pull_request_body_lines st),
               updated_workflow_data :=
                 str_replace (updated_workflow_data st) a (r @ ''@'' @ tag_name rel),
               workflow_updated := True\<rparr>, None)"
      "upgrade_of ext action = Some (r, rel)"
proof (cases "\<exists>s. action = PStr s")
  case False
  then have "\<forall>s. action \<noteq> PStr s" by blast
  moreover from this have "upgrade_of ext action = None"
    by (cases action) (auto simp: upgrade_of_def)
  ultimately show ?thesis
    using not_string process_action_not_string by blast
next
  case True
  then obtain a where a: "action = PStr a" by blast
  show ?thesis
  proof (cases "count_list a CHR ''@'' = 1")
    case False
    then have "length (str_split CHR ''@'' a) \<noteq> 2" by (simp add: length_str_split)
    then have "upgrade_of ext action = None"
      using a by (auto simp: upgrade_of_def split: list.splits)
    with False a show ?thesis
      using malformed process_action_malformed by blast
  next
    case True
    then have "length (str_split CHR ''@'' a) = 2" by (simp add: length_str_split)
    then obtain r v where rv: "str_split CHR ''@'' a = [r, v]"
      by (auto simp: length_Suc_conv numeral_2_eq_2)
    show ?thesis
    proof (cases "resolved ext r")
      case (Inl e)
      with a rv show ?thesis
        using raise [of a r v e] process_action_raise [of a r v ext e st]
        by (simp add: upgrade_of_def)
    next
      case (Inr ro)
      show ?thesis
      proof (cases ro)
        case None
        with Inr a rv show ?thesis
          using no_release [of a r v] process_action_no_release [of a r v ext st]
          by (auto simp: upgrade_of_def)
      next
        case (Some rel)
        show ?thesis
        proof (cases "tag_name rel = v")
          case True
          with Some Inr a rv show ?thesis
            using up_to_date [of a r v rel] process_action_up_to_date [of a r v ext rel st]
            by (simp add: upgrade_of_def)
        next
          case False
          with Some Inr a rv show ?thesis
            using upgrade [of a r v rel] process_action_upgrade [of a r v ext rel st]
            by (simp add: upgrade_of_def)
        qed
      qed
    qed
  qed
qed

lemma upgrades_Nil: "upgrades ext [] = []"
  by (simp add: upgrades_def map_filter_def)

lemma upgrades_Cons:
  "upgrades ext (a # actions) =
     (case upgrade_of ext a of None \<Rightarrow> upgrades ext actions | Some u \<Rightarrow> u # upgrades ext actions)"
  by (simp add: upgrades_def map_filter_def split: option.splits)

lemma set_upgrades: "set (upgrades ext actions) = {u. \<exists>a\<in>set actions. upgrade_of ext a = Some u}"
  by (induction actions) (auto simp: upgrades_Nil upgrades_Cons split: option.splits)

lemma process_action_frame:
  assumes "process_action ext st action = (st', e)"
  shows "files st' = files st"
    and "\<exists>new. lookups st' = lookups st @ new
           \<and> (\<forall>r\<in>set new. \<exists>a v. action = PStr a \<and> str_split CHR ''@'' a = [r, v])"
    and "pull_request_body_lines st'
           = pull_request_body_lines st \<union> change_note ` set (upgrades ext [action])"
    and "workflow_updated st' = (workflow_updated st \<or> upgrades ext [action] \<noteq> [])"
    and "upgrade_of ext action = None \<Longrightarrow> updated_workflow_data st' = updated_workflow_data st"
    and "(\<forall>s. action \<noteq> PStr s) \<Longrightarrow> e \<noteq> None"
proof -
  note cs = process_action_cases [where action = action and ext = ext and st = st]
  show "files st' = files st"
    by (rule cs) (use assms in \<open>auto simp: emit_def\<close>)
  show "\<exists>new. lookups st' = lookups st @ new
           \<and> (\<forall>r\<in>set new. \<exists>a v. action = PStr a \<and> str_split CHR ''@'' a = [r, v])"
    by (rule cs) (use assms in \<open>auto simp: emit_def\<close>)
  show "pull_request_body_lines st'
           = pull_request_body_lines st \<union> change_note ` set (upgrades ext [action])"
    by (rule cs) (use assms in \<open>auto simp: emit_def upgrades_Cons upgrades_Nil change_note_def\<close>)
  show "workflow_updated st' = (workflow_updated st \<or> upgrades ext [action] \<noteq> [])"
    by (rule cs) (use assms in \<open>auto simp: emit_def upgrades_Cons upgrades_Nil\<close>)
  show "upgrade_of ext action = None \<Longrightarrow> updated_workflow_data st' = updated_workflow_data st"
    by (rule cs) (use assms in \<open>auto simp: emit_def\<close>)
  show "(\<forall>s. action \<noteq> PStr s) \<Longrightarrow> e \<noteq> None"
    by (rule cs) (use assms in \<open>auto simp: emit_def\<close>)
qed

lemma process_actions_files: "files (fst (process_actions ext st actions)) = files st"
proof (induction actions arbitrary: st)
  case Nil
  then show ?case by simp
next
  case (Cons action actions)
  obtain st' e where step: "process_action ext st action = (st', e)"
    by (cases "process_action ext st action")
  from process_action_frame(1) [OF step] Cons.IH [of st'] step
  show ?case by (cases e) auto
qed



lemma process_actions_notes:
  "snd (process_actions ext st actions) = None \<Longrightarrow>
   pull_request_body_lines (fst (process_actions ext st actions))
     = pull_request_body_lines st \<union> change_note ` set (upgrades ext actions)
   \<and> workflow_updated (fst (process_actions ext st actions))
     = (workflow_updated st \<or> upgrades ext actions \<noteq> [])"
proof (induction actions arbitrary: st)
  case Nil
  then show ?case by (simp add: upgrades_Nil)
next
  case (Cons action actions)
  obtain st' e where step: "process_action ext st action = (st', e)"
    by (cases "process_action ext st action")
  with Cons.prems have e: "e = None" by (cases e) auto
  with Cons.prems step have "snd (process_actions ext st' actions) = None" by simp
  from Cons.IH [OF this] process_action_frame(3,4) [OF step] step e
  show ?case
    by (auto simp: upgrades_Cons upgrades_Nil split: option.splits)
qed

lemma process_actions_unchanged:
  "\<forall>a\<in>set actions. upgrade_of ext a = None \<Longrightarrow>
   updated_workflow_data (fst (process_actions ext st actions)) = updated_workflow_data st
   \<and> workflow_updated (fst (process_actions ext st actions)) = workflow_updated st
   \<and> pull_request_body_lines (fst (process_actions ext st actions)) = pull_request_body_lines st"
proof (induction actions arbitrary: st)
  case Nil
  then show ?case by simp
next
  case (Cons action actions)
  obtain st' e where step: "process_action ext st action = (st', e)"
    by (cases "process_action ext st action")
  from Cons.prems have none: "upgrade_of ext action = None" by simp
  from Cons.prems have rest: "\<forall>a\<in>set actions. upgrade_of ext a = None" by simp
  from process_action_frame(3,4,5) [OF step] none
  have "updated_workflow_data st' = updated_workflow_data st"
    "workflow_updated st' = workflow_updated st"
    "pull_request_body_lines st' = pull_request_body_lines st"
    by (simp_all add: upgrades_Cons upgrades_Nil)
  with Cons.IH [OF rest, of st'] step show ?case by (cases e) auto
qed

lemma resolved_example:
  "resolved (example_externals latest documents order) r =
     (case map_of latest r of
        Some tag \<Rightarrow> Inr (Some \<lparr>published_at = ''2024-01-01T00:00:00Z'',
                    html_url = ''https://github.com/'' @ r @ ''/releases/tag/'' @ tag,
                    tag_name = tag, body = []\<rparr>)
      | None \<Rightarrow> Inr None)"
  by (simp add: resolved_def get_latest_release_def example_externals_def example_release_def
      Let_def split: option.splits)


text \<open>
  C4, as stated, at the reference \<^verbatim>\<open>a/b@\<close>, whose part after the \<^verbatim>\<open>@\<close> is empty. The split
  has two parts, so nothing is skipped: the release of \<^verbatim>\<open>a/b\<close> is requested, no
  diagnostic about the format is emitted and the text is rewritten.
\<close>

theorem empty_ref_part_not_skipped:
  "str_split CHR ''@'' ''a/b@'' = [''a/b'', []]
   \<and> process_action (example_externals [(''a/b'', ''v2'')] [] remdups)
         ((initial_state Map.empty)\<lparr>updated_workflow_data := ''[{uses: a/b@}, {uses: a/b@v1}]''\<rparr>)
         (PStr ''a/b@'')
     = ((initial_state Map.empty)
          \<lparr>lookups := [''a/b''],
           log := [FoundNewVersion ''a/b'', Updating ''a/b@'' ''a/b@v2''],
           pull_request_body_lines :=
             {''* **[a/b](https://github.com/a/b)** published a new release ''
                @ ''[v2](https://github.com/a/b/releases/tag/v2) on 2024-01-01T00:00:00Z''
                @ [CHR 0x0A]},
           updated_workflow_data := ''[{uses: a/b@v2}, {uses: a/b@v2v1}]'',
           workflow_updated := True\<rparr>, None)"
proof -
  have split: "str_split CHR ''@'' ''a/b@'' = [''a/b'', []]"
    by simp
  have repl: "str_replace ''[{uses: a/b@}, {uses: a/b@v1}]'' ''a/b@'' ''a/b@v2''
      = ''[{uses: a/b@v2}, {uses: a/b@v2v1}]''"
    by code_simp
  show ?thesis
    using split repl
    by (simp add: process_action_upgrade [OF split] resolved_example initial_state_def
        generate_pull_request_body_line_def)
qed

text \<open>
  C4, amended. A reference string that does not contain exactly one \<^verbatim>\<open>@\<close> is skipped:
  the only effect is the diagnostic, no release is requested, no exception is raised,
  and the loop goes on with the remaining references. A reference string with exactly
  one \<^verbatim>\<open>@\<close> is not skipped, whether or not a part is empty: the release of the part
  before the \<^verbatim>\<open>@\<close> is requested.
\<close>

theorem malformed_reference_skipped:
  "(count_list a CHR ''@'' \<noteq> 1 \<longrightarrow>
      process_action ext st (PStr a) = (emit (WrongFormatWarning a) st, None)
      \<and> process_actions ext st (PStr a # actions)
          = process_actions ext (emit (WrongFormatWarning a) st) actions)
   \<and> (count_list a CHR ''@'' = 1 \<longrightarrow>
      lookups (fst (process_action ext st (PStr a)))
        = lookups st @ [takeWhile (\<lambda>c. c \<noteq> CHR ''@'') a])"
proof (intro conjI impI)
  assume "count_list a CHR ''@'' \<noteq> 1"
  then show "process_action ext st (PStr a) = (emit (WrongFormatWarning a) st, None)"
    by (rule process_action_malformed)
  then show "process_actions ext st (PStr a # actions)
      = process_actions ext (emit (WrongFormatWarning a) st) actions"
    by simp
next
  assume one: "count_list a CHR ''@'' = 1"
  then have "length (str_split CHR ''@'' a) = 2" by (simp add: length_str_split)
  then obtain r v where rv: "str_split CHR ''@'' a = [r, v]"
    by (auto simp: length_Suc_conv numeral_2_eq_2)
  then have r: "r = takeWhile (\<lambda>c. c \<noteq> CHR ''@'') a"
    using str_split_hd [of "CHR ''@''" a] by simp
  obtain st' e where step: "process_action ext st (PStr a) = (st', e)"
    by (cases "process_action ext st (PStr a)")
  have "lookups st' = lookups st @ [r]"
    by (rule process_action_cases [where action = "PStr a" and ext = ext and st = st])
      (use step rv one in \<open>auto simp: emit_def\<close>)
  with step r show "lookups (fst (process_action ext st (PStr a)))
      = lookups st @ [takeWhile (\<lambda>c. c \<noteq> CHR ''@'') a]"
    by simp
qed

theorem malformed_reference_skipped_witness:
  "count_list ''a/b'' CHR ''@'' \<noteq> 1
   \<and> process_actions (example_externals [(''a/b'', ''v2'')] [] remdups) (initial_state Map.empty)
        [PStr ''a/b'', PStr ''c/d@v1@x'']
     = ((initial_state Map.empty)
          \<lparr>log := [WrongFormatWarning ''a/b'', WrongFormatWarning ''c/d@v1@x'']\<rparr>, None)
   \<and> count_list ''a/b@v1'' CHR ''@'' = 1
   \<and> lookups (fst (process_action (example_externals [(''a/b'', ''v2'')] [] remdups)
        (initial_state Map.empty) (PStr ''a/b@v1''))) = [''a/b'']"
  using
    malformed_reference_skipped [of "''a/b''" "example_externals [(''a/b'', ''v2'')] [] remdups"
      "initial_state Map.empty" "[PStr ''c/d@v1@x'']"]
    malformed_reference_skipped [of "''c/d@v1@x''" "example_externals [(''a/b'', ''v2'')] [] remdups"
      "emit (WrongFormatWarning ''a/b'') (initial_state Map.empty)" "[]"]
    malformed_reference_skipped [of "''a/b@v1''" "example_externals [(''a/b'', ''v2'')] [] remdups"
      "initial_state Map.empty" "[]"]
  by (simp add: emit_def initial_state_def)







section \<open>One document\<close>

lemma process_action_log:
  assumes "process_action ext st action = (st', e)"
  shows "\<exists>es. log st' = log st @ es \<and> list_all is_reference_event es"
  by (rule process_action_cases [where action = action and ext = ext and st = st])
    (use assms in \<open>auto simp: emit_def\<close>)

lemma process_actions_log:
  "\<exists>es. log (fst (process_actions ext st actions)) = log st @ es \<and> list_all is_reference_event es"
proof (induction actions arbitrary: st)
  case Nil
  then show ?case by simp
next
  case (Cons action actions)
  obtain st' e where step: "process_action ext st action = (st', e)"
    by (cases "process_action ext st action")
  from process_action_log [OF step] obtain es1 where es1:
    "log st' = log st @ es1" "list_all is_reference_event es1"
    by blast
  show ?case
  proof (cases e)
    case (Some x)
    with step es1 show ?thesis by simp
  next
    case None
    from Cons.IH [of st'] obtain es2 where es2:
      "log (fst (process_actions ext st' actions)) = log st' @ es2"
      "list_all is_reference_event es2"
      by blast
    have "log (fst (process_actions ext st (action # actions))) = log st @ (es1 @ es2)"
      using step None es1(1) es2(1) by simp
    moreover have "list_all is_reference_event (es1 @ es2)"
      using es1(2) es2(2) by simp
    ultimately show ?thesis by blast
  qed
qed




lemmas run_simps =
  process_workflow_def all_action_set_def process_action_def get_latest_release_def
  example_externals_def example_release_def emit_def initial_state_def Let_def
  generate_pull_request_body_line_def



lemma set_iteration_remdups: "set_iteration remdups"
  by (simp add: set_iteration_def)
















lemma up_to_date_document_untouched:
  assumes "files st workflow_path = Some file_data"
    and "yaml_load ext file_data = Inr data"
    and "all_action_set ext (ignore_actions cfg) data = Inr actions"
    and "\<forall>a\<in>set actions. upgrade_of ext a = None"
  shows "files (process_workflow ext cfg st workflow_path) = files st"
    and "pull_request_body_lines (process_workflow ext cfg st workflow_path)
          = pull_request_body_lines st"
    and "\<forall>t. FileWrite workflow_path t \<notin> set (log (process_workflow ext cfg st workflow_path))
          - set (log st)"
proof -
  let ?st1 = "st\<lparr>workflow_updated := False, updated_workflow_data := file_data\<rparr>"
  obtain st2 e where loop: "process_actions ext ?st1 actions = (st2, e)"
    by (cases "process_actions ext ?st1 actions")
  from process_actions_unchanged [OF assms(4), of ?st1] loop
  have same: "\<not> workflow_updated st2" "pull_request_body_lines st2 = pull_request_body_lines st"
    by simp_all
  from process_actions_files [of ext ?st1 actions] loop
  have f: "files st2 = files st" by simp
  from process_actions_log [of ext ?st1 actions] loop
  obtain es where es: "log st2 = log st @ es" "list_all is_reference_event es" by auto
  have res: "process_workflow ext cfg st workflow_path
      = (case e of None \<Rightarrow> st2 | Some x \<Rightarrow> emit (Skipping workflow_path) st2)"
    using assms(1,2,3) loop same(1)
    by (simp add: process_workflow_def Let_def split: option.splits)
  show "files (process_workflow ext cfg st workflow_path) = files st"
    using res f by (simp add: emit_def split: option.splits)
  show "pull_request_body_lines (process_workflow ext cfg st workflow_path)
          = pull_request_body_lines st"
    using res same(2) by (simp add: emit_def split: option.splits)
  have "\<forall>ev\<in>set es. \<forall>t. ev \<noteq> FileWrite workflow_path t"
    using es(2) by (auto simp: list_all_iff)
  then show "\<forall>t. FileWrite workflow_path t
      \<notin> set (log (process_workflow ext cfg st workflow_path)) - set (log st)"
    using res es(1) by (auto simp: emit_def split: option.splits)
qed

lemma process_actions_order:
  assumes "set actions = set actions'"
    and "snd (process_actions ext st actions) = None"
    and "snd (process_actions ext st actions') = None"
  shows "workflow_updated (fst (process_actions ext st actions))
          = workflow_updated (fst (process_actions ext st actions'))"
    and "pull_request_body_lines (fst (process_actions ext st actions))
          = pull_request_body_lines (fst (process_actions ext st actions'))"
proof -
  have "set (upgrades ext actions) = set (upgrades ext actions')"
    using assms(1) by (simp add: set_upgrades)
  moreover from this have "upgrades ext actions \<noteq> [] \<longleftrightarrow> upgrades ext actions' \<noteq> []"
    by (metis set_empty)
  ultimately show
    "workflow_updated (fst (process_actions ext st actions))
      = workflow_updated (fst (process_actions ext st actions'))"
    "pull_request_body_lines (fst (process_actions ext st actions))
      = pull_request_body_lines (fst (process_actions ext st actions'))"
    using process_actions_notes [OF assms(2)] process_actions_notes [OF assms(3)] by simp_all
qed

text \<open>
  C3, at a concrete document with the references \<^verbatim>\<open>a/b@v1\<close> and \<^verbatim>\<open>xa/b@v1\<close>, where the
  latest tag of \<^verbatim>\<open>a/b\<close> is \<^verbatim>\<open>v2\<close> and that of \<^verbatim>\<open>xa/b\<close> is \<^verbatim>\<open>v1\<close>. The reference
  \<^verbatim>\<open>xa/b@v1\<close> pins its latest tag, and the run rewrites it to \<^verbatim>\<open>xa/b@v2\<close>: the
  replacement of \<^verbatim>\<open>a/b@v1\<close> also hits the longer string that contains it. A second run
  over the output of the first, with the same releases, rewrites it back, so its output
  is not that of the first run.
\<close>

theorem up_to_date_reference_rewritten:
  "upgrade_of
     (example_externals [(''a/b'', ''v2''), (''xa/b'', ''v1'')]
        [(''[{uses: a/b@v1}, {uses: xa/b@v1}]'',
          PList [PDict [(PStr ''uses'', PStr ''a/b@v1'')], PDict [(PStr ''uses'', PStr ''xa/b@v1'')]]),
         (''[{uses: a/b@v2}, {uses: xa/b@v2}]'',
          PList [PDict [(PStr ''uses'', PStr ''a/b@v2'')], PDict [(PStr ''uses'', PStr ''xa/b@v2'')]])]
        remdups)
     (PStr ''xa/b@v1'') = None
   \<and> files (process_workflow
        (example_externals [(''a/b'', ''v2''), (''xa/b'', ''v1'')]
           [(''[{uses: a/b@v1}, {uses: xa/b@v1}]'',
             PList [PDict [(PStr ''uses'', PStr ''a/b@v1'')], PDict [(PStr ''uses'', PStr ''xa/b@v1'')]]),
            (''[{uses: a/b@v2}, {uses: xa/b@v2}]'',
             PList [PDict [(PStr ''uses'', PStr ''a/b@v2'')], PDict [(PStr ''uses'', PStr ''xa/b@v2'')]])]
           remdups)
        \<lparr>ignore_actions = [], skip_pull_request = False\<rparr>
        (initial_state [PStr ''ci.yml'' \<mapsto> ''[{uses: a/b@v1}, {uses: xa/b@v1}]''])
        (PStr ''ci.yml''))
     = [PStr ''ci.yml'' \<mapsto> ''[{uses: a/b@v2}, {uses: xa/b@v2}]'']
   \<and> files (process_workflow
        (example_externals [(''a/b'', ''v2''), (''xa/b'', ''v1'')]
           [(''[{uses: a/b@v1}, {uses: xa/b@v1}]'',
             PList [PDict [(PStr ''uses'', PStr ''a/b@v1'')], PDict [(PStr ''uses'', PStr ''xa/b@v1'')]]),
            (''[{uses: a/b@v2}, {uses: xa/b@v2}]'',
             PList [PDict [(PStr ''uses'', PStr ''a/b@v2'')], PDict [(PStr ''uses'', PStr ''xa/b@v2'')]])]
           remdups)
        \<lparr>ignore_actions = [], skip_pull_request = False\<rparr>
        (initial_state [PStr ''ci.yml'' \<mapsto> ''[{uses: a/b@v2}, {uses: xa/b@v2}]''])
        (PStr ''ci.yml''))
     = [PStr ''ci.yml'' \<mapsto> ''[{uses: a/b@v2}, {uses: xa/b@v1}]'']"
proof -
  have r1: "str_replace ''[{uses: a/b@v1}, {uses: xa/b@v1}]'' ''a/b@v1'' ''a/b@v2''
      = ''[{uses: a/b@v2}, {uses: xa/b@v2}]''"
    by code_simp
  have r2: "str_replace ''[{uses: a/b@v2}, {uses: xa/b@v2}]'' ''xa/b@v2'' ''xa/b@v1''
      = ''[{uses: a/b@v2}, {uses: xa/b@v1}]''"
    by code_simp
  show ?thesis
    using r1 r2 by (simp add: upgrade_of_def resolved_example) (simp add: run_simps)
qed

text \<open>
  C9, at a concrete document with the references \<^verbatim>\<open>a/b@v1\<close> and \<^verbatim>\<open>a/b@v1.1\<close>, where the
  latest tag of \<^verbatim>\<open>a/b\<close> is \<^verbatim>\<open>v2\<close>. The two iteration orders of the set of the two
  references give two different texts: when \<^verbatim>\<open>a/b@v1\<close> is replaced first, the other
  reference becomes \<^verbatim>\<open>a/b@v2.1\<close> and is no longer found.
\<close>

theorem iteration_order_changes_text:
  "set_iteration remdups \<and> set_iteration (\<lambda>xs. rev (remdups xs))
   \<and> files (process_workflow
        (example_externals [(''a/b'', ''v2'')]
           [(''[{uses: a/b@v1}, {uses: a/b@v1.1}]'',
             PList [PDict [(PStr ''uses'', PStr ''a/b@v1'')], PDict [(PStr ''uses'', PStr ''a/b@v1.1'')]])]
           remdups)
        \<lparr>ignore_actions = [], skip_pull_request = False\<rparr>
        (initial_state [PStr ''ci.yml'' \<mapsto> ''[{uses: a/b@v1}, {uses: a/b@v1.1}]''])
        (PStr ''ci.yml''))
     = [PStr ''ci.yml'' \<mapsto> ''[{uses: a/b@v2}, {uses: a/b@v2.1}]'']
   \<and> files (process_workflow
        (example_externals [(''a/b'', ''v2'')]
           [(''[{uses: a/b@v1}, {uses: a/b@v1.1}]'',
             PList [PDict [(PStr ''uses'', PStr ''a/b@v1'')], PDict [(PStr ''uses'', PStr ''a/b@v1.1'')]])]
           (\<lambda>xs. rev (remdups xs)))
        \<lparr>ignore_actions = [], skip_pull_request = False\<rparr>
        (initial_state [PStr ''ci.yml'' \<mapsto> ''[{uses: a/b@v1}, {uses: a/b@v1.1}]''])
        (PStr ''ci.yml''))
     = [PStr ''ci.yml'' \<mapsto> ''[{uses: a/b@v2}, {uses: a/b@v2}]'']"
proof -
  have r1: "str_replace ''[{uses: a/b@v1}, {uses: a/b@v1.1}]'' ''a/b@v1'' ''a/b@v2''
      = ''[{uses: a/b@v2}, {uses: a/b@v2.1}]''"
    by code_simp
  have r2: "str_replace ''[{uses: a/b@v2}, {uses: a/b@v2.1}]'' ''a/b@v1.1'' ''a/b@v2''
      = ''[{uses: a/b@v2}, {uses: a/b@v2.1}]''"
    by code_simp
  have r3: "str_replace ''[{uses: a/b@v1}, {uses: a/b@v1.1}]'' ''a/b@v1.1'' ''a/b@v2''
      = ''[{uses: a/b@v1}, {uses: a/b@v2}]''"
    by code_simp
  have r4: "str_replace ''[{uses: a/b@v1}, {uses: a/b@v2}]'' ''a/b@v1'' ''a/b@v2''
      = ''[{uses: a/b@v2}, {uses: a/b@v2}]''"
    by code_simp
  have o: "set_iteration (\<lambda>xs. rev (remdups xs))"
    by (simp add: set_iteration_def)
  show ?thesis
    using r1 r2 r3 r4 o by (simp add: set_iteration_remdups) (simp add: run_simps)
qed

section \<open>The workflow listing and the run\<close>

lemma workflow_path_list_shape:
  "list_all has_path ws \<Longrightarrow> workflow_path_list ws = Inr (map path_of ws)"
proof (induction ws)
  case Nil
  then show ?case by simp
next
  case (Cons w ws)
  then show ?case by (cases w) (auto split: option.splits)
qed

lemma workflow_path_list_raises:
  "\<not> list_all has_path ws \<Longrightarrow> \<exists>e. workflow_path_list ws = Inl e"
proof (induction ws)
  case Nil
  then show ?case by simp
next
  case (Cons w ws)
  then show ?case by (cases w) (auto split: option.splits sum.splits)
qed

lemma string_has_no_path: "is_string k \<Longrightarrow> \<not> has_path k"
  by (cases k) auto

lemma workflows_of_Some:
  "workflows_of data = Some w \<longleftrightarrow>
     (\<exists>items. data = Some (PDict items) \<and> map_of items (PStr ''workflows'') = Some w)"
  by (cases data rule: workflows_of.cases) auto

text \<open>
  C10, as stated, at a status 200 answer whose body has an empty mapping under
  \<^verbatim>\<open>workflows\<close>. The body lacks the shape (there is no list), and the operation does not
  raise: the comprehension runs over no key and the result is the empty list.
\<close>

theorem empty_mapping_listing_returns:
  "status_code \<lparr>status_code = 200, json = Some (PDict [(PStr ''workflows'', PDict [])])\<rparr> = 200
   \<and> \<not> listing_shape (Some (PDict [(PStr ''workflows'', PDict [])]))
   \<and> get_workflow_paths
        \<lparr>workflows_api =
           Inr \<lparr>status_code = 200, json = Some (PDict [(PStr ''workflows'', PDict [])])\<rparr>,
         releases_api = (\<lambda>r. Inl RequestException), yaml_load = (\<lambda>t. Inl YAMLError),
         set_order = remdups, git_has_changes = (\<lambda>fs. False)\<rparr>
        (initial_state Map.empty)
     = (Return [], initial_state Map.empty)"
  by (simp add: listing_shape_def get_workflow_paths_def)

text \<open>
  C10, amended. For an answer with status 200 whose body has a list under
  \<^verbatim>\<open>workflows\<close> whose entries are mappings with a \<^verbatim>\<open>path\<close> field, the operation returns
  exactly those paths and leaves the state alone. For an answer with status 200 that
  lacks the shape it raises an exception that is not \<^verbatim>\<open>SystemExit\<close>, except when the
  value under \<^verbatim>\<open>workflows\<close> is an empty mapping or an empty string, which is read as
  no workflows. For every other status it emits the error diagnostic and raises
  \<^verbatim>\<open>SystemExit(1)\<close>.
\<close>

theorem get_workflow_paths_by_response:
  assumes "workflows_api ext = Inr response"
  shows "(status_code response = 200 \<and> listing_shape (json response) \<longrightarrow>
            get_workflow_paths ext st = (Return (listed_paths (json response)), st))
       \<and> (status_code response = 200 \<and> \<not> listing_shape (json response)
            \<and> \<not> empty_workflows (json response) \<and> string_keys (json response) \<longrightarrow>
            (\<exists>e. get_workflow_paths ext st = (Raise e, st)))
       \<and> (status_code response = 200 \<and> empty_workflows (json response) \<longrightarrow>
            get_workflow_paths ext st = (Return [], st))
       \<and> (status_code response \<noteq> 200 \<longrightarrow>
            get_workflow_paths ext st
              = (SystemExit 1, emit (ListingError (status_code response)) st))"
proof (intro conjI impI)
  assume a: "status_code response = 200 \<and> listing_shape (json response)"
  then obtain ws where ws: "workflows_of (json response) = Some (PList ws)" "list_all has_path ws"
    by (auto simp: listing_shape_def split: option.splits pyval.splits)
  from ws(1) obtain items where items: "json response = Some (PDict items)"
    "map_of items (PStr ''workflows'') = Some (PList ws)"
    by (auto simp: workflows_of_Some)
  from a assms items ws show "get_workflow_paths ext st = (Return (listed_paths (json response)), st)"
    by (simp add: get_workflow_paths_def listed_paths_def workflow_path_list_shape)
next
  assume a: "status_code response = 200 \<and> \<not> listing_shape (json response)
      \<and> \<not> empty_workflows (json response) \<and> string_keys (json response)"
  show "\<exists>e. get_workflow_paths ext st = (Raise e, st)"
  proof (cases "json response")
    case None
    with a assms show ?thesis by (simp add: get_workflow_paths_def)
  next
    case (Some data)
    show ?thesis
    proof (cases "py_getitem data ''workflows''")
      case (Inl e)
      with Some a assms show ?thesis by (simp add: get_workflow_paths_def)
    next
      case (Inr w)
      then obtain items where d: "data = PDict items" "map_of items (PStr ''workflows'') = Some w"
        by (cases data) (auto split: option.splits)
      with Some have wf: "workflows_of (json response) = Some w" by simp
      show ?thesis
      proof (cases w)
        case (PList ws)
        with wf a have "\<not> list_all has_path ws" by (simp add: listing_shape_def)
        from workflow_path_list_raises [OF this] obtain e where "workflow_path_list ws = Inl e" ..
        with PList Inr Some a assms show ?thesis by (simp add: get_workflow_paths_def)
      next
        case (PDict kvs)
        with wf a have ne: "kvs \<noteq> []" and keys: "list_all is_string (map fst kvs)" by auto
        then have "\<not> list_all has_path (map fst kvs)"
          by (cases kvs) (auto simp: string_has_no_path)
        from workflow_path_list_raises [OF this]
        obtain e where "workflow_path_list (map fst kvs) = Inl e" ..
        with PDict Inr Some a assms show ?thesis by (simp add: get_workflow_paths_def)
      next
        case (PStr s)
        with wf a have "s \<noteq> []" by auto
        then have "\<not> list_all has_path (map (\<lambda>c. PStr [c]) s)" by (cases s) auto
        from workflow_path_list_raises [OF this]
        obtain e where "workflow_path_list (map (\<lambda>c. PStr [c]) s) = Inl e" ..
        with PStr Inr Some a assms show ?thesis by (simp add: get_workflow_paths_def)
      next
        case (PInt i)
        with Inr Some a assms show ?thesis by (simp add: get_workflow_paths_def)
      next
        case (PBool b)
        with Inr Some a assms show ?thesis by (simp add: get_workflow_paths_def)
      next
        case PNone
        with Inr Some a assms show ?thesis by (simp add: get_workflow_paths_def)
      qed
    qed
  qed
next
  assume a: "status_code response = 200 \<and> empty_workflows (json response)"
  then obtain w where w: "workflows_of (json response) = Some w" "w = PDict [] \<or> w = PStr []"
    by auto
  from w(1) obtain items where items: "json response = Some (PDict items)"
    "map_of items (PStr ''workflows'') = Some w"
    by (auto simp: workflows_of_Some)
  from a assms items w(2) show "get_workflow_paths ext st = (Return [], st)"
    by (auto simp: get_workflow_paths_def)
next
  assume "status_code response \<noteq> 200"
  then show "get_workflow_paths ext st
      = (SystemExit 1, emit (ListingError (status_code response)) st)"
    using assms by (simp add: get_workflow_paths_def)
qed


theorem get_workflow_paths_by_response_witness:
  "workflows_api (example_externals [] [] remdups)
     = Inr \<lparr>status_code = 200,
            json = Some (PDict [(PStr ''workflows'',
                                 PList [PDict [(PStr ''path'', PStr ''ci.yml'')]])])\<rparr>
   \<and> listing_shape (Some (PDict [(PStr ''workflows'',
                                   PList [PDict [(PStr ''path'', PStr ''ci.yml'')]])]))
   \<and> get_workflow_paths (example_externals [] [] remdups) (initial_state Map.empty)
       = (Return [PStr ''ci.yml''], initial_state Map.empty)
   \<and> get_workflow_paths
         ((example_externals [] [] remdups)
            \<lparr>workflows_api := Inr \<lparr>status_code = 500, json = None\<rparr>\<rparr>)
         (initial_state Map.empty)
       = (SystemExit 1, (initial_state Map.empty)\<lparr>log := [ListingError 500]\<rparr>)
   \<and> \<not> listing_shape (Some (PDict [(PStr ''message'', PStr ''Not Found'')]))
   \<and> \<not> empty_workflows (Some (PDict [(PStr ''message'', PStr ''Not Found'')]))
   \<and> string_keys (Some (PDict [(PStr ''message'', PStr ''Not Found'')]))
   \<and> (\<exists>e. get_workflow_paths
         ((example_externals [] [] remdups)
            \<lparr>workflows_api :=
               Inr \<lparr>status_code = 200,
                    json = Some (PDict [(PStr ''message'', PStr ''Not Found'')])\<rparr>\<rparr>)
         (initial_state Map.empty)
       = (Raise e, initial_state Map.empty))"
proof -
  let ?ok = "\<lparr>status_code = 200,
            json = Some (PDict [(PStr ''workflows'',
                                 PList [PDict [(PStr ''path'', PStr ''ci.yml'')]])])\<rparr>"
  let ?bad = "\<lparr>status_code = 200, json = Some (PDict [(PStr ''message'', PStr ''Not Found'')])\<rparr>"
  let ?err = "\<lparr>status_code = 500, json = None :: pyval option\<rparr>"
  have h1: "workflows_api (example_externals [] [] remdups) = Inr ?ok"
    by (simp add: example_externals_def)
  have h2: "workflows_api ((example_externals [] [] remdups)\<lparr>workflows_api := Inr ?err\<rparr>)
      = Inr ?err"
    by simp
  have h3: "workflows_api ((example_externals [] [] remdups)\<lparr>workflows_api := Inr ?bad\<rparr>)
      = Inr ?bad"
    by simp
  show ?thesis
    using h1
      get_workflow_paths_by_response [OF h1, of "initial_state Map.empty"]
      get_workflow_paths_by_response [OF h2, of "initial_state Map.empty"]
      get_workflow_paths_by_response [OF h3, of "initial_state Map.empty"]
    by (simp add: listing_shape_def listed_paths_def emit_def initial_state_def)
qed








end
